theory Spec2Isabelle
  imports Main
begin

section \<open>The permission module of the document manager\<close>

text \<open>
  A shallow embedding of \<^verbatim>\<open>src/utils/permissionManagement.ts\<close>. The module keeps
  three arrays (\<^verbatim>\<open>users\<close>, \<^verbatim>\<open>groups\<close>, \<^verbatim>\<open>permissions\<close>) and exports operations that
  read and mutate them. The arrays are lists here, every operation takes the store and returns
  its result together with the store it leaves behind, and an operation that returns a
  \<^verbatim>\<open>PermissionError\<close> returns \<open>Inl\<close> of it.
\<close>

subsection \<open>Strings\<close>

text \<open>
  A string is a list of code units; the model covers the code units 0 to 255 (Latin-1), on
  which \<^verbatim>\<open>toLowerCase\<close> maps each unit on its own (A to Z, and the accented capitals
  192 to 222 without the multiplication sign 215, move up by 32) and on which the white space
  that \<^verbatim>\<open>trim\<close> strips is tab, line feed, vertical tab, form feed, carriage return, space
  and the no-break space 160.
\<close>

definition lower_char :: "char \<Rightarrow> char" where
  "lower_char c =
     (let n = (of_char c :: nat)
      in if (65 \<le> n \<and> n \<le> 90) \<or> (192 \<le> n \<and> n \<le> 222 \<and> n \<noteq> 215)
         then char_of (n + 32) else c)"

definition toLowerCase :: "string \<Rightarrow> string" where
  "toLowerCase s = map lower_char s"

definition isWhiteSpace :: "char \<Rightarrow> bool" where
  "isWhiteSpace c =
     (let n = (of_char c :: nat)
      in n = 9 \<or> n = 10 \<or> n = 11 \<or> n = 12 \<or> n = 13 \<or> n = 32 \<or> n = 160)"

definition trim :: "string \<Rightarrow> string" where
  "trim s = rev (dropWhile isWhiteSpace (rev (dropWhile isWhiteSpace s)))"

subsection \<open>Arrays\<close>

text \<open>
  \<^verbatim>\<open>Array.prototype.find\<close> is \<^const>\<open>List.find\<close>; \<^verbatim>\<open>indexOf\<close> and \<^verbatim>\<open>findIndex\<close>
  return \<open>-1\<close> when nothing matches; \<^verbatim>\<open>splice(i, 1)\<close> removes the element at index \<open>i\<close>.
\<close>

fun findIndex :: "('a \<Rightarrow> bool) \<Rightarrow> 'a list \<Rightarrow> int" where
  "findIndex P [] = -1"
| "findIndex P (x # xs) =
     (if P x then 0 else (let r = findIndex P xs in if r = -1 then -1 else r + 1))"

definition indexOf :: "'a list \<Rightarrow> 'a \<Rightarrow> int" where
  "indexOf xs x = findIndex (\<lambda>y. y = x) xs"

definition array_includes :: "'a list \<Rightarrow> 'a \<Rightarrow> bool" where
  "array_includes xs x = (indexOf xs x \<noteq> -1)"

definition splice1 :: "nat \<Rightarrow> 'a list \<Rightarrow> 'a list" where
  "splice1 i xs = take i xs @ drop (Suc i) xs"

subsection \<open>Data model\<close>

datatype PermissionLevel = View | Edit | Download | Admin

datatype Role = RoleUser | RoleAdmin

datatype GranteeType = GUser | GGroup

record User =
  u_id :: string
  u_name :: string
  u_email :: string
  u_role :: Role

record Group =
  g_id :: string
  g_name :: string
  g_description :: "string option"
  g_members :: "string list"

text \<open>The two dates of a permission are the clock readings that created them.\<close>

record Permission =
  p_id :: string
  documentId :: string
  granteeId :: string
  granteeType :: GranteeType
  level :: PermissionLevel
  grantedBy :: string
  grantedAt :: int
  updatedAt :: int

datatype ErrorType = VALIDATION_ERROR | NOT_FOUND | INVALID_OPERATION | UNAUTHORIZED

record PermissionError =
  err_type :: ErrorType
  err_message :: string

record store =
  users :: "User list"
  groups :: "Group list"
  permissions :: "Permission list"

definition empty_store :: store where
  "empty_store = \<lparr>users = [], groups = [], permissions = []\<rparr>"

subsection \<open>Levels\<close>

definition levels :: "PermissionLevel list" where
  "levels = [View, Edit, Download, Admin]"

definition hasPermissionLevel :: "PermissionLevel \<Rightarrow> PermissionLevel \<Rightarrow> bool" where
  "hasPermissionLevel userLevel requiredLevel =
     (indexOf levels userLevel \<ge> indexOf levels requiredLevel)"

text \<open>
  The order of the specification, written out: \<open>view < edit < download < admin\<close>, as the
  position of a level in that sequence.
\<close>

fun level_position :: "PermissionLevel \<Rightarrow> nat" where
  "level_position View = 0"
| "level_position Edit = 1"
| "level_position Download = 2"
| "level_position Admin = 3"

subsection \<open>Queries on the store\<close>

definition getDocumentPermissions :: "store \<Rightarrow> string \<Rightarrow> Permission list" where
  "getDocumentPermissions s docId = filter (\<lambda>p. documentId p = docId) (permissions s)"

definition getUserPermissions :: "store \<Rightarrow> string \<Rightarrow> Permission list" where
  "getUserPermissions s userId =
     (let userGroups = filter (\<lambda>g. array_includes (g_members g) userId) (groups s);
          groupIds = map g_id userGroups
      in filter (\<lambda>p. (granteeType p = GUser \<and> granteeId p = userId) \<or>
                      (granteeType p = GGroup \<and> array_includes groupIds (granteeId p)))
           (permissions s))"

text \<open>
  \<^verbatim>\<open>user?.role === 'admin'\<close> is false when no user has the id; \<^verbatim>\<open>reduce\<close> with an initial
  value is a left fold.
\<close>

definition checkPermission :: "store \<Rightarrow> string \<Rightarrow> string \<Rightarrow> PermissionLevel \<Rightarrow> bool" where
  "checkPermission s docId userId requiredLevel =
     (let user = find (\<lambda>u. u_id u = userId) (users s)
      in if map_option u_role user = Some RoleAdmin then True
         else
           let userPermissions = getUserPermissions s userId;
               documentPermissions = filter (\<lambda>p. documentId p = docId) userPermissions
           in if length documentPermissions = 0 then False
              else
                let highestLevel =
                      foldl (\<lambda>highest current.
                               if hasPermissionLevel (level current) highest
                               then level current else highest)
                        View documentPermissions
                in hasPermissionLevel highestLevel requiredLevel)"

text \<open>
  The non-null assertion \<^verbatim>\<open>!\<close> of \<^verbatim>\<open>getDocumentAccessList\<close> checks nothing when the
  program runs, so an entry holds whatever \<^verbatim>\<open>find\<close> returned: \<open>None\<close> is \<^verbatim>\<open>undefined\<close>.
\<close>

record AccessList =
  al_users :: "(User option \<times> Permission) list"
  al_groups :: "(Group option \<times> Permission) list"

definition getDocumentAccessList :: "store \<Rightarrow> string \<Rightarrow> AccessList" where
  "getDocumentAccessList s docId =
     (let documentPermissions = getDocumentPermissions s docId
      in \<lparr>al_users =
            map (\<lambda>p. (find (\<lambda>u. u_id u = granteeId p) (users s), p))
              (filter (\<lambda>p. granteeType p = GUser) documentPermissions),
          al_groups =
            map (\<lambda>p. (find (\<lambda>g. g_id g = granteeId p) (groups s), p))
              (filter (\<lambda>p. granteeType p = GGroup) documentPermissions)\<rparr>)"

definition getAllUsers :: "store \<Rightarrow> User list" where
  "getAllUsers s = users s"

definition getAllGroups :: "store \<Rightarrow> Group list" where
  "getAllGroups s = groups s"

subsection \<open>Operations that change the store\<close>

text \<open>
  The value that \<^verbatim>\<open>uuidv4()\<close> returns in a call is the argument \<open>uuid\<close> of the
  operation, and the clock readings of the first and the second \<^verbatim>\<open>new Date()\<close> of a call
  are \<open>now1\<close> and \<open>now2\<close>. An omitted \<^verbatim>\<open>role\<close> or \<^verbatim>\<open>description\<close> is \<open>None\<close>.
  The bodies of the \<^verbatim>\<open>try\<close> blocks call only array and string functions that do not
  throw, so no \<^verbatim>\<open>catch\<close> branch is taken.
\<close>

definition mk_error :: "ErrorType \<Rightarrow> string \<Rightarrow> PermissionError" where
  "mk_error t m = \<lparr>err_type = t, err_message = m\<rparr>"

definition createUser ::
  "string \<Rightarrow> string \<Rightarrow> Role option \<Rightarrow> string \<Rightarrow> store \<Rightarrow> (PermissionError + User) \<times> store" where
  "createUser name email role uuid s =
     (if trim name = [] \<or> trim email = []
      then (Inl (mk_error VALIDATION_ERROR ''Name and email are required''), s)
      else
        case find (\<lambda>u. toLowerCase (u_email u) = toLowerCase email) (users s) of
          Some existingUser \<Rightarrow>
            (Inl (mk_error INVALID_OPERATION ''User with this email already exists''), s)
        | None \<Rightarrow>
            let newUser = \<lparr>u_id = uuid, u_name = trim name,
                           u_email = trim (toLowerCase email),
                           u_role = (case role of None \<Rightarrow> RoleUser | Some r \<Rightarrow> r)\<rparr>
            in (Inr newUser, s\<lparr>users := users s @ [newUser]\<rparr>))"

definition createGroup ::
  "string \<Rightarrow> string option \<Rightarrow> string \<Rightarrow> store \<Rightarrow> (PermissionError + Group) \<times> store" where
  "createGroup name description uuid s =
     (if trim name = []
      then (Inl (mk_error VALIDATION_ERROR ''Group name is required''), s)
      else
        case find (\<lambda>g. toLowerCase (g_name g) = toLowerCase name) (groups s) of
          Some existingGroup \<Rightarrow>
            (Inl (mk_error INVALID_OPERATION ''Group with this name already exists''), s)
        | None \<Rightarrow>
            let newGroup = \<lparr>g_id = uuid, g_name = trim name,
                            g_description = map_option trim description,
                            g_members = []\<rparr>
            in (Inr newGroup, s\<lparr>groups := groups s @ [newGroup]\<rparr>))"

definition addUserToGroup ::
  "string \<Rightarrow> string \<Rightarrow> store \<Rightarrow> (PermissionError + bool) \<times> store" where
  "addUserToGroup userId groupId s =
     (case find (\<lambda>u. u_id u = userId) (users s) of
        None \<Rightarrow> (Inl (mk_error NOT_FOUND ''User not found''), s)
      | Some user \<Rightarrow>
          let groupIndex = findIndex (\<lambda>g. g_id g = groupId) (groups s)
          in if groupIndex = -1
             then (Inl (mk_error NOT_FOUND ''Group not found''), s)
             else
               let g = groups s ! nat groupIndex
               in if array_includes (g_members g) userId
                  then (Inl (mk_error INVALID_OPERATION
                               ''User is already a member of this group''), s)
                  else (Inr True,
                        s\<lparr>groups := (groups s)[nat groupIndex :=
                                       g\<lparr>g_members := g_members g @ [userId]\<rparr>]\<rparr>))"

definition removeUserFromGroup ::
  "string \<Rightarrow> string \<Rightarrow> store \<Rightarrow> (PermissionError + bool) \<times> store" where
  "removeUserFromGroup userId groupId s =
     (let groupIndex = findIndex (\<lambda>g. g_id g = groupId) (groups s)
      in if groupIndex = -1
         then (Inl (mk_error NOT_FOUND ''Group not found''), s)
         else
           let g = groups s ! nat groupIndex;
               memberIndex = indexOf (g_members g) userId
           in if memberIndex = -1
              then (Inl (mk_error NOT_FOUND ''User is not a member of this group''), s)
              else (Inr True,
                    s\<lparr>groups := (groups s)[nat groupIndex :=
                                   g\<lparr>g_members := splice1 (nat memberIndex) (g_members g)\<rparr>]\<rparr>))"

text \<open>
  \<^verbatim>\<open>grantPermission\<close> assigns to the fields of the object that \<^verbatim>\<open>find\<close> returned, which
  is the first matching element of the array: the array holds the changed object at the same
  index afterwards.
\<close>

fun update_first :: "('a \<Rightarrow> bool) \<Rightarrow> ('a \<Rightarrow> 'a) \<Rightarrow> 'a list \<Rightarrow> 'a list" where
  "update_first P f [] = []"
| "update_first P f (x # xs) = (if P x then f x # xs else x # update_first P f xs)"

definition same_grant :: "string \<Rightarrow> string \<Rightarrow> GranteeType \<Rightarrow> Permission \<Rightarrow> bool" where
  "same_grant docId gId gType p =
     (documentId p = docId \<and> granteeId p = gId \<and> granteeType p = gType)"

definition grantPermission ::
  "string \<Rightarrow> string \<Rightarrow> GranteeType \<Rightarrow> PermissionLevel \<Rightarrow> string \<Rightarrow> string \<Rightarrow> int \<Rightarrow> int \<Rightarrow> store
     \<Rightarrow> (PermissionError + Permission) \<times> store" where
  "grantPermission docId gId gType lvl grantor uuid now1 now2 s =
     (if gType = GUser \<and> find (\<lambda>u. u_id u = gId) (users s) = None
      then (Inl (mk_error NOT_FOUND ''User not found''), s)
      else if gType = GGroup \<and> find (\<lambda>g. g_id g = gId) (groups s) = None
      then (Inl (mk_error NOT_FOUND ''Group not found''), s)
      else
        case find (same_grant docId gId gType) (permissions s) of
          Some existingPermission \<Rightarrow>
            (Inr (existingPermission\<lparr>level := lvl, updatedAt := now1\<rparr>),
             s\<lparr>permissions :=
                 update_first (same_grant docId gId gType)
                   (\<lambda>p. p\<lparr>level := lvl, updatedAt := now1\<rparr>) (permissions s)\<rparr>)
        | None \<Rightarrow>
            let newPermission =
                  \<lparr>p_id = uuid, documentId = docId, granteeId = gId, granteeType = gType,
                   level = lvl, grantedBy = grantor, grantedAt = now1, updatedAt = now2\<rparr>
            in (Inr newPermission, s\<lparr>permissions := permissions s @ [newPermission]\<rparr>))"

definition revokePermission ::
  "string \<Rightarrow> string \<Rightarrow> GranteeType \<Rightarrow> store \<Rightarrow> (PermissionError + bool) \<times> store" where
  "revokePermission docId gId gType s =
     (let permissionIndex = findIndex (same_grant docId gId gType) (permissions s)
      in if permissionIndex = -1
         then (Inl (mk_error NOT_FOUND ''Permission not found''), s)
         else (Inr True,
               s\<lparr>permissions := splice1 (nat permissionIndex) (permissions s)\<rparr>))"

definition initializePermissions :: "string \<Rightarrow> store \<Rightarrow> store" where
  "initializePermissions uuid s =
     (if length (users s) = 0
      then snd (createUser ''Admin'' ''admin@example.com'' (Some RoleAdmin) uuid s)
      else s)"

subsection \<open>Runs of the module\<close>

text \<open>
  A call of an exported operation that can change the store, with its arguments and with the
  identifier and the clock readings it draws. The module starts with three empty arrays.
\<close>

datatype call =
    CreateUser string string "Role option" string
  | CreateGroup string "string option" string
  | AddUserToGroup string string
  | RemoveUserFromGroup string string
  | GrantPermission string string GranteeType PermissionLevel string string int int
  | RevokePermission string string GranteeType
  | InitializePermissions string

fun run_call :: "call \<Rightarrow> store \<Rightarrow> store" where
  "run_call (CreateUser name email role uuid) s = snd (createUser name email role uuid s)"
| "run_call (CreateGroup name description uuid) s = snd (createGroup name description uuid s)"
| "run_call (AddUserToGroup userId groupId) s = snd (addUserToGroup userId groupId s)"
| "run_call (RemoveUserFromGroup userId groupId) s = snd (removeUserFromGroup userId groupId s)"
| "run_call (GrantPermission docId gId gType lvl grantor uuid now1 now2) s =
     snd (grantPermission docId gId gType lvl grantor uuid now1 now2 s)"
| "run_call (RevokePermission docId gId gType) s = snd (revokePermission docId gId gType s)"
| "run_call (InitializePermissions uuid) s = initializePermissions uuid s"

fun run :: "call list \<Rightarrow> store \<Rightarrow> store" where
  "run [] s = s"
| "run (c # cs) s = run cs (run_call c s)"

inductive reachable :: "store \<Rightarrow> bool" where
  reachable_empty: "reachable empty_store"
| reachable_call: "reachable s \<Longrightarrow> reachable (run_call c s)"

subsection \<open>The arrays as objects\<close>

text \<open>
  \<^verbatim>\<open>getAllUsers\<close> and \<^verbatim>\<open>getAllGroups\<close> return the value of the module variables
  \<^verbatim>\<open>users\<close> and \<^verbatim>\<open>groups\<close>, which is a reference to an array. What a caller can do with
  the result depends on which array that is, so here the arrays of users and of groups are
  objects of a heap, addressed by references, and the two variables hold references. The
  module never assigns to the variables: every operation changes the arrays they refer to
  in place, by \<^verbatim>\<open>push\<close>, \<^verbatim>\<open>splice\<close> and assignments to fields.
\<close>

type_synonym ref = nat

record module_state =
  user_arrays :: "ref \<Rightarrow> User list"
  group_arrays :: "ref \<Rightarrow> Group list"
  users_var :: ref
  groups_var :: ref
  permissions_var :: "Permission list"

text \<open>The store that the operations of the module see.\<close>

definition store_of :: "module_state \<Rightarrow> store" where
  "store_of m =
     \<lparr>users = user_arrays m (users_var m), groups = group_arrays m (groups_var m),
      permissions = permissions_var m\<rparr>"

definition getAllUsers_ref :: "module_state \<Rightarrow> ref" where
  "getAllUsers_ref m = users_var m"

definition getAllGroups_ref :: "module_state \<Rightarrow> ref" where
  "getAllGroups_ref m = groups_var m"

text \<open>
  A caller that holds a reference to an array can change its contents (\<^verbatim>\<open>push\<close>,
  \<^verbatim>\<open>pop\<close>, \<^verbatim>\<open>splice\<close>, assignment to an index or to \<^verbatim>\<open>length\<close>): the array then has
  other contents at the same reference.
\<close>

definition write_users :: "ref \<Rightarrow> User list \<Rightarrow> module_state \<Rightarrow> module_state" where
  "write_users r us m = m\<lparr>user_arrays := (user_arrays m)(r := us)\<rparr>"

definition write_groups :: "ref \<Rightarrow> Group list \<Rightarrow> module_state \<Rightarrow> module_state" where
  "write_groups r gs m = m\<lparr>group_arrays := (group_arrays m)(r := gs)\<rparr>"

definition push_user :: "ref \<Rightarrow> User \<Rightarrow> module_state \<Rightarrow> module_state" where
  "push_user r u m = write_users r (user_arrays m r @ [u]) m"

definition push_group :: "ref \<Rightarrow> Group \<Rightarrow> module_state \<Rightarrow> module_state" where
  "push_group r g m = write_groups r (group_arrays m r @ [g]) m"

text \<open>The module as it is loaded: two empty arrays, at two references, and no permission.\<close>

definition initial_module :: module_state where
  "initial_module =
     \<lparr>user_arrays = (\<lambda>r. []), group_arrays = (\<lambda>r. []), users_var = 0, groups_var = 1,
      permissions_var = []\<rparr>"

text \<open>A user record and a group record that no operation of the module created.\<close>

definition intruder :: User where
  "intruder = \<lparr>u_id = ''x'', u_name = ''Mallory'', u_email = ''m@x.com'', u_role = RoleAdmin\<rparr>"

definition intruder_group :: Group where
  "intruder_group =
     \<lparr>g_id = ''gx'', g_name = ''Outsiders'', g_description = None, g_members = [''x'']\<rparr>"

text \<open>
  The users and groups that the calls of a run created, in the order of the calls: the values
  that the successful calls of \<open>createUser\<close> and \<open>createGroup\<close> returned (the call of
  \<open>createUser\<close> inside \<open>initializePermissions\<close> included). A group is created without
  members.
\<close>

fun new_users :: "call \<Rightarrow> store \<Rightarrow> User list" where
  "new_users (CreateUser name email role uuid) s =
     (case fst (createUser name email role uuid s) of Inr u \<Rightarrow> [u] | Inl e \<Rightarrow> [])"
| "new_users (InitializePermissions uuid) s =
     (if length (users s) = 0
      then (case fst (createUser ''Admin'' ''admin@example.com'' (Some RoleAdmin) uuid s) of
              Inr u \<Rightarrow> [u] | Inl e \<Rightarrow> [])
      else [])"
| "new_users c s = []"

fun new_groups :: "call \<Rightarrow> store \<Rightarrow> Group list" where
  "new_groups (CreateGroup name description uuid) s =
     (case fst (createGroup name description uuid s) of Inr g \<Rightarrow> [g] | Inl e \<Rightarrow> [])"
| "new_groups c s = []"

fun created_users :: "call list \<Rightarrow> store \<Rightarrow> User list" where
  "created_users [] s = []"
| "created_users (c # cs) s = new_users c s @ created_users cs (run_call c s)"

fun created_groups :: "call list \<Rightarrow> store \<Rightarrow> Group list" where
  "created_groups [] s = []"
| "created_groups (c # cs) s = new_groups c s @ created_groups cs (run_call c s)"

definition without_members :: "Group \<Rightarrow> Group" where
  "without_members g = g\<lparr>g_members := []\<rparr>"

subsection \<open>The specification's notions\<close>

text \<open>
  The effective permission set of a user for a document, in the words of the specification:
  the permissions on the document granted to the user directly, and those granted to a group
  that has the user among its members. The list keeps the order of the store.
\<close>

definition effective_permissions :: "store \<Rightarrow> string \<Rightarrow> string \<Rightarrow> Permission list" where
  "effective_permissions s docId userId =
     filter (\<lambda>p. documentId p = docId \<and>
                 ((granteeType p = GUser \<and> granteeId p = userId) \<or>
                  (granteeType p = GGroup \<and>
                   (\<exists>g \<in> set (groups s). g_id g = granteeId p \<and> userId \<in> set (g_members g)))))
       (permissions s)"

text \<open>The maximum level of a list of permissions: a fold from \<open>view\<close> that keeps the higher one.\<close>

definition max_level :: "Permission list \<Rightarrow> PermissionLevel" where
  "max_level ps =
     foldl (\<lambda>highest p. if level_position highest \<le> level_position (level p)
                         then level p else highest) View ps"

text \<open>
  The grantee of a permission is the pair of \<open>granteeId\<close> and \<open>granteeType\<close>; a permission
  belongs to the triple of its document and its grantee. Two properties of a store: no two
  permissions belong to the same triple, and the grantee of every permission is a stored user
  or a stored group, according to its type.
\<close>

definition perm_key :: "Permission \<Rightarrow> string \<times> string \<times> GranteeType" where
  "perm_key p = (documentId p, granteeId p, granteeType p)"

definition unique_grants :: "store \<Rightarrow> bool" where
  "unique_grants s = distinct (map perm_key (permissions s))"

definition grantee_exists :: "store \<Rightarrow> Permission \<Rightarrow> bool" where
  "grantee_exists s p =
     (if granteeType p = GUser then granteeId p \<in> u_id ` set (users s)
      else granteeId p \<in> g_id ` set (groups s))"

definition grantees_exist :: "store \<Rightarrow> bool" where
  "grantees_exist s = (\<forall>p \<in> set (permissions s). grantee_exists s p)"

text \<open>
  An email, or a group name, is in use when a stored user, or group, has it up to the case of
  its letters. Every principal of a store is named when no stored email and no stored group
  name is blank.
\<close>

definition email_in_use :: "store \<Rightarrow> string \<Rightarrow> bool" where
  "email_in_use s email = (\<exists>u \<in> set (users s). toLowerCase (u_email u) = toLowerCase email)"

definition group_name_in_use :: "store \<Rightarrow> string \<Rightarrow> bool" where
  "group_name_in_use s name = (\<exists>g \<in> set (groups s). toLowerCase (g_name g) = toLowerCase name)"

definition named_principals :: "store \<Rightarrow> bool" where
  "named_principals s =
     ((\<forall>u \<in> set (users s). trim (u_email u) \<noteq> []) \<and> (\<forall>g \<in> set (groups s). trim (g_name g) \<noteq> []))"

subsection \<open>A sample run\<close>

text \<open>
  Alice is created and put into the group Eng, which is granted \<open>download\<close> on \<open>doc1\<close>.
\<close>

definition demo_calls :: "call list" where
  "demo_calls =
     [CreateUser ''Alice'' ''Alice@x.com'' None ''u1'',
      CreateGroup ''Eng'' None ''g1'',
      AddUserToGroup ''u1'' ''g1'',
      GrantPermission ''doc1'' ''g1'' GGroup Download ''u1'' ''p1'' 10 11]"

definition demo_store :: store where
  "demo_store = run demo_calls empty_store"

text \<open>The store after \<^verbatim>\<open>initializePermissions\<close> alone: one administrator, no permission.\<close>

definition admin_store :: store where
  "admin_store = initializePermissions ''a1'' empty_store"

text \<open>The permission that the sample run stores.\<close>

definition demo_permission :: Permission where
  "demo_permission =
     \<lparr>p_id = ''p1'', documentId = ''doc1'', granteeId = ''g1'', granteeType = GGroup,
      level = Download, grantedBy = ''u1'', grantedAt = 10, updatedAt = 11\<rparr>"

section \<open>Properties\<close>

lemma indexOf_levels:
  "indexOf levels l = int (level_position l)"
  by (cases l) (simp_all add: indexOf_def levels_def)

text \<open>
  C4. The level-satisfaction relation is the total order view < edit < download < admin:
  level \<open>a\<close> satisfies the required level \<open>b\<close> exactly when the position of \<open>a\<close> in
  the sequence view, edit, download, admin is at least the position of \<open>b\<close>; where
  the position of a level is the index at which the sequence holds it.
\<close>

theorem hasPermissionLevel_total_order:
  "hasPermissionLevel a b = (level_position a \<ge> level_position b)
   \<and> level_position a < 4
   \<and> [View, Edit, Download, Admin] ! level_position a = a"
proof -
  have "hasPermissionLevel a b = (level_position a \<ge> level_position b)"
    by (simp add: hasPermissionLevel_def indexOf_levels)
  moreover have "level_position a < 4 \<and> [View, Edit, Download, Admin] ! level_position a = a"
    by (cases a) simp_all
  ultimately show ?thesis by simp
qed


subsection \<open>Arrays\<close>

lemma findIndex_ge: "findIndex P xs \<ge> -1"
  by (induction xs) (auto simp: Let_def)

lemma findIndex_none: "(findIndex P xs = -1) = (\<forall>x \<in> set xs. \<not> P x)"
proof (induction xs)
  case Nil
  then show ?case by simp
next
  case (Cons x xs)
  have "findIndex P xs \<ge> -1" by (rule findIndex_ge)
  then have "findIndex P xs + 1 \<noteq> -1" by arith
  with Cons show ?case by (auto simp: Let_def)
qed

lemma findIndex_find: "(findIndex P xs = -1) = (find P xs = None)"
  by (auto simp: findIndex_none find_None_iff)

lemma array_includes_set: "array_includes xs x = (x \<in> set xs)"
  by (auto simp: array_includes_def indexOf_def findIndex_none)

subsection \<open>The access decision\<close>

lemma getUserPermissions_effective:
  "filter (\<lambda>p. documentId p = d) (getUserPermissions s u) = effective_permissions s d u"
proof -
  have "\<And>p. array_includes
              (map g_id (filter (\<lambda>g. array_includes (g_members g) u) (groups s))) (granteeId p)
            = (\<exists>g \<in> set (groups s). g_id g = granteeId p \<and> u \<in> set (g_members g))"
    by (force simp: array_includes_set)
  then show ?thesis
    unfolding getUserPermissions_def effective_permissions_def Let_def
    by (auto intro!: filter_cong)
qed

lemma fold_position:
  "level_position (foldl (\<lambda>highest p. if level_position highest \<le> level_position (level p)
                         then level p else highest) a ps)
   = Max (insert (level_position a) (level_position ` level ` set ps))"
proof (induction ps arbitrary: a)
  case Nil then show ?case by simp
next
  case (Cons p ps)
  let ?T = "level_position ` level ` set ps"
  have fin: "finite ?T" by simp
  show ?case
  proof (cases "?T = {}")
    case True
    then show ?thesis by (simp add: Cons.IH max_def)
  next
    case False
    with fin show ?thesis by (simp add: Cons.IH max_def)
  qed
qed

lemma checkPermission_not_admin:
  assumes "map_option u_role (find (\<lambda>u. u_id u = U) (users s)) \<noteq> Some RoleAdmin"
  shows "checkPermission s D U L =
           (effective_permissions s D U \<noteq> [] \<and>
            level_position L \<le> level_position (max_level (effective_permissions s D U)))"
  using assms
  by (cases "find (\<lambda>u. u_id u = U) (users s)")
     (simp_all add: checkPermission_def Let_def getUserPermissions_effective
        max_level_def hasPermissionLevel_def indexOf_levels)

lemma demo_store_value:
  "demo_store =
     \<lparr>users = [\<lparr>u_id = ''u1'', u_name = ''Alice'', u_email = ''alice@x.com'',
                u_role = RoleUser\<rparr>],
      groups = [\<lparr>g_id = ''g1'', g_name = ''Eng'', g_description = None,
                 g_members = [''u1'']\<rparr>],
      permissions = [\<lparr>p_id = ''p1'', documentId = ''doc1'', granteeId = ''g1'',
                      granteeType = GGroup, level = Download, grantedBy = ''u1'',
                      grantedAt = 10, updatedAt = 11\<rparr>]\<rparr>"
  by code_simp

text \<open>
  C1. For a user id whose stored role is not admin (no user with the id is stored, or the
  stored one is an ordinary user), \<open>checkPermission\<close> is false when the effective permission
  set for the document is empty, and otherwise true exactly when the maximum level of that
  set, folded from \<open>view\<close>, is at least the required level. The fold does compute the maximum:
  its position is the greatest position among the levels of the set.
\<close>

theorem checkPermission_effective:
  assumes "map_option u_role (find (\<lambda>u. u_id u = U) (users s)) \<noteq> Some RoleAdmin"
  shows "checkPermission s D U L =
           (effective_permissions s D U \<noteq> [] \<and>
            level_position L \<le> level_position (max_level (effective_permissions s D U)))
         \<and> level_position (max_level (effective_permissions s D U)) =
             Max (insert 0 (level_position ` level ` set (effective_permissions s D U)))"
proof -
  have "level_position (max_level (effective_permissions s D U)) =
             Max (insert 0 (level_position ` level ` set (effective_permissions s D U)))"
    by (simp add: max_level_def fold_position)
  with checkPermission_not_admin [OF assms] show ?thesis by simp
qed

theorem checkPermission_effective_witness:
  "map_option u_role (find (\<lambda>u. u_id u = ''u1'') (users demo_store)) \<noteq> Some RoleAdmin
   \<and> effective_permissions demo_store ''doc1'' ''u1'' = permissions demo_store
   \<and> checkPermission demo_store ''doc1'' ''u1'' Download
   \<and> \<not> checkPermission demo_store ''doc1'' ''u1'' Admin
   \<and> \<not> checkPermission demo_store ''doc2'' ''u1'' View"
proof -
  have h: "map_option u_role (find (\<lambda>u. u_id u = ''u1'') (users demo_store)) \<noteq> Some RoleAdmin"
    by (simp add: demo_store_value)
  have e1: "effective_permissions demo_store ''doc1'' ''u1'' = permissions demo_store"
    by (simp add: demo_store_value effective_permissions_def)
  have e2: "effective_permissions demo_store ''doc2'' ''u1'' = []"
    by (simp add: demo_store_value effective_permissions_def)
  have m: "max_level (permissions demo_store) = Download"
    by (simp add: demo_store_value max_level_def)
  have p: "permissions demo_store \<noteq> []"
    by (simp add: demo_store_value)
  show ?thesis
    using h e1 p
      checkPermission_effective [OF h, of "''doc1''" Download]
      checkPermission_effective [OF h, of "''doc1''" Admin]
      checkPermission_effective [OF h, of "''doc2''" View]
    by (simp add: e2 m)
qed

text \<open>
  C2. When the stored user with id \<open>U\<close> (a stored user with that id, and the only one) has
  role admin, \<open>checkPermission\<close> is true for every document and every required level,
  whatever permissions are recorded, none included.
\<close>

theorem admin_bypass:
  assumes "u \<in> set (users s)" and "u_id u = U" and "u_role u = RoleAdmin"
    and "\<forall>v \<in> set (users s). u_id v = U \<longrightarrow> v = u"
  shows "checkPermission s D U L"
proof -
  obtain v where v: "find (\<lambda>u. u_id u = U) (users s) = Some v"
    using assms(1,2) by (cases "find (\<lambda>u. u_id u = U) (users s)") (auto simp: find_None_iff)
  then have "v \<in> set (users s) \<and> u_id v = U"
    by (auto simp: find_Some_iff)
  with assms(4) have "v = u" by simp
  with v assms(3) show ?thesis
    by (simp add: checkPermission_def)
qed

lemma admin_store_value:
  "admin_store =
     \<lparr>users = [\<lparr>u_id = ''a1'', u_name = ''Admin'', u_email = ''admin@example.com'',
                u_role = RoleAdmin\<rparr>],
      groups = [], permissions = []\<rparr>"
  by code_simp

theorem admin_bypass_witness:
  "permissions admin_store = [] \<and> map u_id (users admin_store) = [''a1'']
   \<and> map u_role (users admin_store) = [RoleAdmin]
   \<and> checkPermission admin_store ''doc1'' ''a1'' Admin"
proof -
  have a: "hd (users admin_store) \<in> set (users admin_store)"
    and b: "u_id (hd (users admin_store)) = ''a1''"
    and c: "u_role (hd (users admin_store)) = RoleAdmin"
    and d: "\<forall>v \<in> set (users admin_store). u_id v = ''a1'' \<longrightarrow> v = hd (users admin_store)"
    and e: "permissions admin_store = []"
    and i: "map u_id (users admin_store) = [''a1'']"
    and r: "map u_role (users admin_store) = [RoleAdmin]"
    by (simp_all add: admin_store_value)
  have f: "checkPermission admin_store ''doc1'' ''a1'' Admin"
    by (rule admin_bypass [OF a b c d])
  show ?thesis by (intro conjI e i r f)
qed

subsection \<open>What the operations change\<close>

lemma findIndex_found:
  "findIndex P xs \<noteq> -1 \<Longrightarrow>
     0 \<le> findIndex P xs \<and> nat (findIndex P xs) < length xs \<and> P (xs ! nat (findIndex P xs))"
proof (induction xs)
  case Nil
  then show ?case by simp
next
  case (Cons x xs)
  show ?case
  proof (cases "P x")
    case True
    then show ?thesis by simp
  next
    case False
    with Cons.prems have ne: "findIndex P xs \<noteq> -1" by (auto simp: Let_def split: if_splits)
    from Cons.IH [OF ne] have ih: "0 \<le> findIndex P xs" "nat (findIndex P xs) < length xs"
      "P (xs ! nat (findIndex P xs))" by simp_all
    have eq: "findIndex P (x # xs) = findIndex P xs + 1"
      using False ne by (simp add: Let_def)
    have n: "nat (findIndex P xs + 1) = Suc (nat (findIndex P xs))"
      using ih(1) by arith
    show ?thesis unfolding eq n using ih by simp
  qed
qed

lemma same_grant_key: "same_grant d g t p = (perm_key p = (d, g, t))"
  by (auto simp: same_grant_def perm_key_def)

lemma update_first_keys:
  "(\<And>p. perm_key (f p) = perm_key p) \<Longrightarrow> map perm_key (update_first P f xs) = map perm_key xs"
  by (induction xs) simp_all

lemma update_first_set:
  "x \<in> set (update_first P f xs) \<Longrightarrow> x \<in> set xs \<or> (\<exists>y \<in> set xs. x = f y)"
  by (induction xs) (auto split: if_splits)

lemma distinct_splice1:
  assumes "distinct (map f xs)"
  shows "distinct (map f (splice1 i xs))"
proof -
  let ?ys = "map f xs"
  have "distinct (take i ?ys @ drop i ?ys)" using assms by simp
  then have tk: "distinct (take i ?ys)" and dr: "distinct (drop i ?ys)"
    and dj: "set (take i ?ys) \<inter> set (drop i ?ys) = {}"
    unfolding distinct_append by blast+
  have sub: "set (drop (Suc i) ?ys) \<subseteq> set (drop i ?ys)"
    by (rule set_drop_subset_set_drop) simp
  have "distinct (drop (Suc i) ?ys)" using assms by (rule distinct_drop)
  with tk dj sub have "distinct (take i ?ys @ drop (Suc i) ?ys)"
    unfolding distinct_append by blast
  then show ?thesis
    by (simp add: splice1_def take_map drop_map)
qed

lemma set_splice1: "set (splice1 i xs) \<subseteq> set xs"
  by (auto simp: splice1_def dest: in_set_takeD in_set_dropD)


lemma createUser_frame:
  "groups (snd (createUser n e r i s)) = groups s
   \<and> permissions (snd (createUser n e r i s)) = permissions s
   \<and> (users (snd (createUser n e r i s)) = users s
        \<or> (\<exists>u. fst (createUser n e r i s) = Inr u
                 \<and> users (snd (createUser n e r i s)) = users s @ [u]))"
  by (simp add: createUser_def Let_def split: option.split)

lemma createGroup_frame:
  "users (snd (createGroup n d i s)) = users s
   \<and> permissions (snd (createGroup n d i s)) = permissions s
   \<and> (groups (snd (createGroup n d i s)) = groups s
        \<or> (\<exists>g. fst (createGroup n d i s) = Inr g
                 \<and> groups (snd (createGroup n d i s)) = groups s @ [g]))"
  by (simp add: createGroup_def Let_def split: option.split)

lemma map_g_id_update:
  "map g_id (gs[k := (gs ! k)\<lparr>g_members := ms\<rparr>]) = map g_id gs"
proof (cases "k < length gs")
  case True
  then have "(map g_id gs)[k := g_id (gs ! k)] = map g_id gs"
    by (simp add: list_update_same_conv)
  then show ?thesis by (simp add: map_update)
next
  case False
  then show ?thesis by (simp add: list_update_beyond not_less)
qed

lemma addUserToGroup_frame:
  "users (snd (addUserToGroup u g s)) = users s
   \<and> permissions (snd (addUserToGroup u g s)) = permissions s
   \<and> map g_id (groups (snd (addUserToGroup u g s))) = map g_id (groups s)"
  by (simp add: addUserToGroup_def Let_def map_g_id_update split: option.split)

lemma removeUserFromGroup_frame:
  "users (snd (removeUserFromGroup u g s)) = users s
   \<and> permissions (snd (removeUserFromGroup u g s)) = permissions s
   \<and> map g_id (groups (snd (removeUserFromGroup u g s))) = map g_id (groups s)"
  by (simp add: removeUserFromGroup_def Let_def map_g_id_update)

lemma initializePermissions_frame:
  "groups (initializePermissions i s) = groups s
   \<and> permissions (initializePermissions i s) = permissions s
   \<and> (users (initializePermissions i s) = users s
        \<or> (\<exists>u. users (initializePermissions i s) = users s @ [u]))"
  using createUser_frame [of "''Admin''" "''admin@example.com''" "Some RoleAdmin" i s]
  by (auto simp: initializePermissions_def)

lemma grantPermission_frame:
  "users (snd (grantPermission d g t l b i n1 n2 s)) = users s
   \<and> groups (snd (grantPermission d g t l b i n1 n2 s)) = groups s"
  by (simp add: grantPermission_def Let_def split: option.split)

lemma revokePermission_frame:
  "users (snd (revokePermission d g t s)) = users s
   \<and> groups (snd (revokePermission d g t s)) = groups s"
  by (simp add: revokePermission_def Let_def)

lemma run_call_principals:
  "u_id ` set (users s) \<subseteq> u_id ` set (users (run_call c s))
   \<and> g_id ` set (groups s) \<subseteq> g_id ` set (groups (run_call c s))"
proof (cases c)
  case (CreateUser n e r i)
  then show ?thesis using createUser_frame [of n e r i s] by auto
next
  case (CreateGroup n d i)
  then show ?thesis using createGroup_frame [of n d i s] by auto
next
  case (AddUserToGroup u g)
  have "set (map g_id (groups (snd (addUserToGroup u g s)))) = set (map g_id (groups s))"
    using addUserToGroup_frame [of u g s] by simp
  then have "g_id ` set (groups (snd (addUserToGroup u g s))) = g_id ` set (groups s)"
    by (simp only: set_map)
  then show ?thesis using AddUserToGroup addUserToGroup_frame [of u g s] by simp
next
  case (RemoveUserFromGroup u g)
  have "set (map g_id (groups (snd (removeUserFromGroup u g s)))) = set (map g_id (groups s))"
    using removeUserFromGroup_frame [of u g s] by simp
  then have "g_id ` set (groups (snd (removeUserFromGroup u g s))) = g_id ` set (groups s)"
    by (simp only: set_map)
  then show ?thesis using RemoveUserFromGroup removeUserFromGroup_frame [of u g s] by simp
next
  case (GrantPermission d g t l b i n1 n2)
  then show ?thesis using grantPermission_frame [of d g t l b i n1 n2 s] by simp
next
  case (RevokePermission d g t)
  then show ?thesis using revokePermission_frame [of d g t s] by simp
next
  case (InitializePermissions i)
  then show ?thesis using initializePermissions_frame [of i s] by auto
qed


lemma grantee_exists_mono:
  assumes "u_id ` set (users s) \<subseteq> u_id ` set (users s')"
    and "g_id ` set (groups s) \<subseteq> g_id ` set (groups s')"
    and "grantee_exists s p"
  shows "grantee_exists s' p"
  using assms unfolding grantee_exists_def by (cases "granteeType p = GUser") auto

lemma grantee_exists_cong:
  "users s' = users s \<Longrightarrow> groups s' = groups s \<Longrightarrow> granteeType p' = granteeType p \<Longrightarrow>
   granteeId p' = granteeId p \<Longrightarrow> grantee_exists s' p' = grantee_exists s p"
  by (simp add: grantee_exists_def)

lemma grantPermission_cases:
  fixes d g t l b i n1 n2 s
  defines "r \<equiv> grantPermission d g t l b i n1 n2 s"
  defines "f \<equiv> (\<lambda>p. p\<lparr>level := l, updatedAt := n1\<rparr>)"
  defines "new \<equiv> \<lparr>p_id = i, documentId = d, granteeId = g, granteeType = t,
                   level = l, grantedBy = b, grantedAt = n1, updatedAt = n2\<rparr>"
  shows "(\<not> grantee_exists s new \<and> (\<exists>e. fst r = Inl e) \<and> snd r = s)
       \<or> (grantee_exists s new
           \<and> (\<exists>p. find (same_grant d g t) (permissions s) = Some p \<and> fst r = Inr (f p))
           \<and> snd r = s\<lparr>permissions := update_first (same_grant d g t) f (permissions s)\<rparr>)
       \<or> (grantee_exists s new
           \<and> find (same_grant d g t) (permissions s) = None \<and> fst r = Inr new
           \<and> snd r = s\<lparr>permissions := permissions s @ [new]\<rparr>)"
proof (cases t)
  case GUser
  show ?thesis
  proof (cases "find (\<lambda>u. u_id u = g) (users s)")
    case None
    then have "\<not> grantee_exists s new"
      by (auto simp: grantee_exists_def new_def GUser find_None_iff)
    with None GUser show ?thesis by (simp add: r_def grantPermission_def)
  next
    case (Some u)
    then have "grantee_exists s new"
      by (force simp: grantee_exists_def new_def GUser find_Some_iff)
    with Some GUser show ?thesis
      by (cases "find (same_grant d g GUser) (permissions s)")
         (simp_all add: r_def grantPermission_def f_def new_def Let_def)
  qed
next
  case GGroup
  show ?thesis
  proof (cases "find (\<lambda>x. g_id x = g) (groups s)")
    case None
    then have "\<not> grantee_exists s new"
      by (auto simp: grantee_exists_def new_def GGroup find_None_iff)
    with None GGroup show ?thesis by (simp add: r_def grantPermission_def)
  next
    case (Some u)
    then have "grantee_exists s new"
      by (force simp: grantee_exists_def new_def GGroup find_Some_iff)
    with Some GGroup show ?thesis
      by (cases "find (same_grant d g GGroup) (permissions s)")
         (simp_all add: r_def grantPermission_def f_def new_def Let_def)
  qed
qed


lemma grant_unique:
  assumes "unique_grants s"
  shows "unique_grants (snd (grantPermission d g t l b i n1 n2 s))"
proof -
  let ?f = "\<lambda>p. p\<lparr>level := l, updatedAt := n1\<rparr>"
  have keep: "\<And>p. perm_key (?f p) = perm_key p" by (simp add: perm_key_def)
  have upd: "map perm_key (update_first (same_grant d g t) ?f (permissions s))
               = map perm_key (permissions s)"
    using keep by (rule update_first_keys)
  have fresh: "find (same_grant d g t) (permissions s) = None \<Longrightarrow>
                 (d, g, t) \<notin> perm_key ` set (permissions s)"
    by (auto simp: find_None_iff same_grant_key)
  from grantPermission_cases [where d=d and g=g and t=t and l=l and b=b and i=i and ?n1.0=n1 and ?n2.0=n2 and s=s] assms upd fresh show ?thesis
    by (auto simp: unique_grants_def perm_key_def)
qed

lemma grant_grantees:
  assumes "grantees_exist s"
  shows "grantees_exist (snd (grantPermission d g t l b i n1 n2 s))"
proof -
  let ?f = "\<lambda>p. p\<lparr>level := l, updatedAt := n1\<rparr>"
  let ?s' = "snd (grantPermission d g t l b i n1 n2 s)"
  have same: "\<And>p. grantee_exists ?s' p = grantee_exists s p"
    using grantPermission_frame [of d g t l b i n1 n2 s] by (simp add: grantee_exists_def)
  have f: "\<And>p. grantee_exists s (?f p) = grantee_exists s p"
    by (simp add: grantee_exists_def)
  have upd: "\<And>x. x \<in> set (update_first (same_grant d g t) ?f (permissions s)) \<Longrightarrow>
                grantee_exists s x"
    using update_first_set [of _ "same_grant d g t" ?f "permissions s"] assms f
    by (auto simp: grantees_exist_def)
  from grantPermission_cases [where d=d and g=g and t=t and l=l and b=b and i=i and ?n1.0=n1 and ?n2.0=n2 and s=s] show ?thesis
    unfolding grantees_exist_def same using assms upd
    by (auto simp: grantees_exist_def)
qed

lemma revokePermission_cases:
  fixes d g t s
  defines "r \<equiv> revokePermission d g t s"
  defines "k \<equiv> nat (findIndex (same_grant d g t) (permissions s))"
  shows "((\<forall>p \<in> set (permissions s). \<not> same_grant d g t p)
          \<and> fst r = Inl (mk_error NOT_FOUND ''Permission not found'') \<and> snd r = s)
       \<or> (k < length (permissions s) \<and> same_grant d g t (permissions s ! k)
           \<and> fst r = Inr True \<and> snd r = s\<lparr>permissions := splice1 k (permissions s)\<rparr>)"
proof (cases "findIndex (same_grant d g t) (permissions s) = -1")
  case True
  then show ?thesis
    by (simp add: r_def revokePermission_def findIndex_none)
next
  case False
  from findIndex_found [OF False] False show ?thesis
    by (simp add: r_def k_def revokePermission_def)
qed

lemma revoke_unique:
  assumes "unique_grants s"
  shows "unique_grants (snd (revokePermission d g t s))"
  using revokePermission_cases [where d=d and g=g and t=t and s=s] assms distinct_splice1 [of perm_key "permissions s"]
  by (auto simp: unique_grants_def)

lemma revoke_grantees:
  assumes "grantees_exist s"
  shows "grantees_exist (snd (revokePermission d g t s))"
proof -
  have "\<And>k p. p \<in> set (splice1 k (permissions s)) \<Longrightarrow> p \<in> set (permissions s)"
    using set_splice1 by fastforce
  with revokePermission_cases [where d=d and g=g and t=t and s=s] assms show ?thesis
    by (auto simp: grantees_exist_def grantee_exists_def)
qed

lemma run_call_permissions:
  "(\<exists>d g t l b i n1 n2. c = GrantPermission d g t l b i n1 n2) \<or> (\<exists>d g t. c = RevokePermission d g t)
   \<or> permissions (run_call c s) = permissions s"
proof (cases c)
  case (CreateUser n e r i)
  then show ?thesis using createUser_frame [of n e r i s] by simp
next
  case (CreateGroup n d i)
  then show ?thesis using createGroup_frame [of n d i s] by simp
next
  case (AddUserToGroup u g)
  then show ?thesis using addUserToGroup_frame [of u g s] by simp
next
  case (RemoveUserFromGroup u g)
  then show ?thesis using removeUserFromGroup_frame [of u g s] by simp
next
  case (InitializePermissions i)
  then show ?thesis using initializePermissions_frame [of i s] by simp
qed simp_all

lemma run_call_unique: "unique_grants s \<Longrightarrow> unique_grants (run_call c s)"
  using run_call_permissions [of c s]
  by (auto simp: grant_unique revoke_unique) (simp add: unique_grants_def)

lemma run_call_grantees:
  assumes "grantees_exist s"
  shows "grantees_exist (run_call c s)"
proof -
  consider (grant) d g t l b i n1 n2 where "c = GrantPermission d g t l b i n1 n2"
    | (revoke) d g t where "c = RevokePermission d g t"
    | (other) "permissions (run_call c s) = permissions s"
    using run_call_permissions [of c s] by blast
  then show ?thesis
  proof cases
    case grant
    then show ?thesis using assms by (simp add: grant_grantees)
  next
    case revoke
    then show ?thesis using assms by (simp add: revoke_grantees)
  next
    case other
    with assms run_call_principals [of s c] show ?thesis
      unfolding grantees_exist_def by (auto intro: grantee_exists_mono)
  qed
qed

lemma reachable_unique: "reachable s \<Longrightarrow> unique_grants s"
  by (induction rule: reachable.induct)
     (simp_all add: unique_grants_def empty_store_def run_call_unique [unfolded unique_grants_def])

lemma reachable_grantees: "reachable s \<Longrightarrow> grantees_exist s"
  by (induction rule: reachable.induct)
     (simp_all add: grantees_exist_def empty_store_def run_call_grantees [unfolded grantees_exist_def])

lemma reachable_run: "reachable s \<Longrightarrow> reachable (run cs s)"
  by (induction cs arbitrary: s) (auto intro: reachable_call)


lemma update_first_nth:
  "find P xs = Some p \<Longrightarrow>
     \<exists>k < length xs. xs ! k = p \<and> update_first P f xs = xs[k := f p]"
proof (induction xs)
  case Nil
  then show ?case by simp
next
  case (Cons x xs)
  show ?case
  proof (cases "P x")
    case True
    with Cons.prems have "x = p" by simp
    with True have "(x # xs) ! 0 = p \<and> update_first P f (x # xs) = (x # xs)[0 := f p]"
      by simp
    then show ?thesis by blast
  next
    case False
    with Cons.prems have "find P xs = Some p" by simp
    from Cons.IH [OF this] obtain k where
      k: "k < length xs" "xs ! k = p" "update_first P f xs = xs[k := f p]" by blast
    with False have "Suc k < length (x # xs) \<and> (x # xs) ! Suc k = p
        \<and> update_first P f (x # xs) = (x # xs)[Suc k := f p]"
      by simp
    then show ?thesis by blast
  qed
qed

lemma update_first_filter:
  "(\<And>x. P x \<Longrightarrow> P (f x)) \<Longrightarrow>
     filter (\<lambda>x. \<not> P x) (update_first P f xs) = filter (\<lambda>x. \<not> P x) xs"
  by (induction xs) simp_all

lemma splice1_Cons: "splice1 (Suc k) (x # xs) = x # splice1 k xs"
  by (simp add: splice1_def)

lemma remove_first_filter:
  assumes "distinct (map f xs)"
  shows "(if findIndex (\<lambda>x. f x = a) xs = -1 then xs
          else splice1 (nat (findIndex (\<lambda>x. f x = a) xs)) xs) = filter (\<lambda>x. f x \<noteq> a) xs"
  using assms
proof (induction xs)
  case Nil
  then show ?case by simp
next
  case (Cons x xs)
  show ?case
  proof (cases "f x = a")
    case True
    from Cons.prems have "f x \<notin> f ` set xs" by simp
    with True have "\<forall>y \<in> set xs. f y \<noteq> a" by (metis imageI)
    then have "filter (\<lambda>x. f x \<noteq> a) xs = xs" by simp
    with True show ?thesis by (simp add: splice1_def)
  next
    case False
    from Cons.prems have d: "distinct (map f xs)" by simp
    show ?thesis
    proof (cases "findIndex (\<lambda>x. f x = a) xs = -1")
      case True
      with Cons.IH [OF d] False show ?thesis by simp
    next
      case nf: False
      from findIndex_found [OF nf] have "0 \<le> findIndex (\<lambda>x. f x = a) xs" by simp
      then have n: "nat (findIndex (\<lambda>x. f x = a) xs + 1)
                     = Suc (nat (findIndex (\<lambda>x. f x = a) xs))" by arith
      have ne: "findIndex (\<lambda>x. f x = a) xs + 1 \<noteq> -1"
        using findIndex_ge [of "\<lambda>x. f x = a" xs] by arith
      from Cons.IH [OF d] nf False show ?thesis
        by (simp add: Let_def n ne splice1_Cons)
    qed
  qed
qed

lemma grant_revoke_permissions:
  assumes "unique_grants s"
  shows "snd (revokePermission d g t (snd (grantPermission d g t l b i n1 n2 s)))
           = s\<lparr>permissions := filter (\<lambda>p. \<not> same_grant d g t p) (permissions s)\<rparr>"
proof -
  let ?s1 = "snd (grantPermission d g t l b i n1 n2 s)"
  let ?f = "\<lambda>p. p\<lparr>level := l, updatedAt := n1\<rparr>"
  have u1: "distinct (map perm_key (permissions ?s1))"
    using grant_unique [OF assms] by (simp add: unique_grants_def)
  have sg: "same_grant d g t = (\<lambda>p. perm_key p = (d, g, t))"
    by (rule ext) (rule same_grant_key)
  have rev: "snd (revokePermission d g t ?s1)
      = ?s1\<lparr>permissions := filter (\<lambda>p. \<not> same_grant d g t p) (permissions ?s1)\<rparr>"
    using remove_first_filter [OF u1, of "(d, g, t)"]
    by (simp add: revokePermission_def Let_def sg split: if_splits)
  have keep: "\<And>x. same_grant d g t x \<Longrightarrow> same_grant d g t (?f x)"
    by (simp add: same_grant_def)
  have "filter (\<lambda>p. \<not> same_grant d g t p) (permissions ?s1)
          = filter (\<lambda>p. \<not> same_grant d g t p) (permissions s) \<and> users ?s1 = users s
            \<and> groups ?s1 = groups s"
    using grantPermission_cases [where d=d and g=g and t=t and l=l and b=b and i=i
        and ?n1.0=n1 and ?n2.0=n2 and s=s]
      update_first_filter [of "same_grant d g t" ?f "permissions s", OF keep]
    by (auto simp: same_grant_def)
  with rev show ?thesis by simp
qed

subsection \<open>Grants, revocations and the principals they name\<close>

lemma unique_find:
  assumes "unique_grants s" and "p \<in> set (permissions s)" and "same_grant d g t p"
  shows "find (same_grant d g t) (permissions s) = Some p"
proof -
  from assms(2,3) obtain q where q: "find (same_grant d g t) (permissions s) = Some q"
    by (cases "find (same_grant d g t) (permissions s)") (auto simp: find_None_iff)
  then have "q \<in> set (permissions s)" and "same_grant d g t q"
    by (auto simp: find_Some_iff)
  with assms(3) have "perm_key q = perm_key p" by (simp add: same_grant_key)
  moreover have "inj_on perm_key (set (permissions s))"
    using assms(1) by (simp add: unique_grants_def distinct_map)
  ultimately have "q = p" using \<open>q \<in> set (permissions s)\<close> assms(2) by (auto dest: inj_onD)
  with q show ?thesis by simp
qed

text \<open>
  C3. In every store reachable from the empty one by calls of the exported operations no two
  permissions belong to the same triple of document, grantee id and grantee type. When
  \<open>grantPermission\<close> is called there on a triple that has a permission \<open>p\<close>, it returns
  \<open>p\<close> with the new level and with \<open>updatedAt\<close> set to the clock reading, the array holds
  that record at the index where \<open>p\<close> was and is otherwise unchanged (so no record is added
  and \<open>p_id\<close>, \<open>grantedBy\<close> and \<open>grantedAt\<close> stay), and users and groups are unchanged.
\<close>

theorem grant_upsert:
  assumes "reachable s"
  shows "distinct (map perm_key (permissions s))
    \<and> (\<forall>p \<in> set (permissions s). same_grant d g t p \<longrightarrow>
          (\<exists>k < length (permissions s). permissions s ! k = p
             \<and> grantPermission d g t l b i n1 n2 s =
                 (Inr (p\<lparr>level := l, updatedAt := n1\<rparr>),
                  s\<lparr>permissions := (permissions s)[k := p\<lparr>level := l, updatedAt := n1\<rparr>]\<rparr>)))"
proof -
  have u: "unique_grants s" using assms by (rule reachable_unique)
  have ge: "grantees_exist s" using assms by (rule reachable_grantees)
  let ?f = "\<lambda>p. p\<lparr>level := l, updatedAt := n1\<rparr>"
  let ?new = "\<lparr>p_id = i, documentId = d, granteeId = g, granteeType = t,
                   level = l, grantedBy = b, grantedAt = n1, updatedAt = n2\<rparr>"
  have "\<exists>k < length (permissions s). permissions s ! k = p
             \<and> grantPermission d g t l b i n1 n2 s =
                 (Inr (?f p), s\<lparr>permissions := (permissions s)[k := ?f p]\<rparr>)"
    if p: "p \<in> set (permissions s)" and sg: "same_grant d g t p" for p
  proof -
    have fnd: "find (same_grant d g t) (permissions s) = Some p"
      using u p sg by (rule unique_find)
    from ge p have "grantee_exists s p" by (simp add: grantees_exist_def)
    then have ex: "grantee_exists s ?new"
      using sg by (auto simp: grantee_exists_def same_grant_def split: if_splits)
    from update_first_nth [OF fnd, of ?f] obtain k where
      k: "k < length (permissions s)" "permissions s ! k = p"
         "update_first (same_grant d g t) ?f (permissions s) = (permissions s)[k := ?f p]"
      by blast
    from grantPermission_cases [where d=d and g=g and t=t and l=l and b=b and i=i
        and ?n1.0=n1 and ?n2.0=n2 and s=s] ex fnd
    have "fst (grantPermission d g t l b i n1 n2 s) = Inr (?f p)
        \<and> snd (grantPermission d g t l b i n1 n2 s)
            = s\<lparr>permissions := update_first (same_grant d g t) ?f (permissions s)\<rparr>"
      by auto
    with k(3) have "grantPermission d g t l b i n1 n2 s =
                 (Inr (?f p), s\<lparr>permissions := (permissions s)[k := ?f p]\<rparr>)"
      by (simp add: prod_eq_iff)
    with k(1,2) show ?thesis by blast
  qed
  with u show ?thesis by (simp add: unique_grants_def)
qed


lemma reachable_demo: "reachable demo_store"
  unfolding demo_store_def by (rule reachable_run) (rule reachable_empty)

lemma demo_permissions: "permissions demo_store = [demo_permission]"
  by (simp add: demo_store_value demo_permission_def)

theorem grant_upsert_witness:
  "reachable demo_store
   \<and> distinct (map perm_key (permissions demo_store))
   \<and> demo_permission \<in> set (permissions demo_store)
   \<and> same_grant ''doc1'' ''g1'' GGroup demo_permission
   \<and> grantPermission ''doc1'' ''g1'' GGroup Admin ''u9'' ''p2'' 20 21 demo_store =
        (Inr (demo_permission\<lparr>level := Admin, updatedAt := 20\<rparr>),
         demo_store\<lparr>permissions := [demo_permission\<lparr>level := Admin, updatedAt := 20\<rparr>]\<rparr>)"
proof -
  have m: "demo_permission \<in> set (permissions demo_store)"
    by (simp add: demo_permissions)
  have sg: "same_grant ''doc1'' ''g1'' GGroup demo_permission"
    by (simp add: same_grant_def demo_permission_def)
  note th = grant_upsert [OF reachable_demo, of "''doc1''" "''g1''" GGroup Admin "''u9''" "''p2''" 20 21]
  from th have d: "distinct (map perm_key (permissions demo_store))" by (rule conjunct1)
  from th m sg obtain k where "k < length (permissions demo_store)"
    and g: "grantPermission ''doc1'' ''g1'' GGroup Admin ''u9'' ''p2'' 20 21 demo_store =
        (Inr (demo_permission\<lparr>level := Admin, updatedAt := 20\<rparr>),
         demo_store\<lparr>permissions :=
           (permissions demo_store)[k := demo_permission\<lparr>level := Admin, updatedAt := 20\<rparr>]\<rparr>)"
    by blast
  then have "k = 0" by (simp add: demo_permissions)
  with g have "grantPermission ''doc1'' ''g1'' GGroup Admin ''u9'' ''p2'' 20 21 demo_store =
        (Inr (demo_permission\<lparr>level := Admin, updatedAt := 20\<rparr>),
         demo_store\<lparr>permissions := [demo_permission\<lparr>level := Admin, updatedAt := 20\<rparr>]\<rparr>)"
    by (simp add: demo_permissions)
  with reachable_demo d m sg show ?thesis by (intro conjI)
qed

text \<open>
  C8. Whenever \<open>grantPermission\<close> returns an error the store it leaves is the store it
  found; it returns the not-found error, with the store unchanged, for a grantee id that names
  no stored user (type user) or no stored group (type group). \<open>revokePermission\<close> returns an
  error exactly when no stored permission matches the triple, and the error is then the
  not-found one and the store is unchanged.
\<close>

theorem failed_grant_revoke:
  "(fst (grantPermission d g t l b i n1 n2 s) = Inl e
       \<longrightarrow> snd (grantPermission d g t l b i n1 n2 s) = s)
   \<and> (t = GUser \<and> g \<notin> u_id ` set (users s)
       \<longrightarrow> grantPermission d g t l b i n1 n2 s = (Inl (mk_error NOT_FOUND ''User not found''), s))
   \<and> (t = GGroup \<and> g \<notin> g_id ` set (groups s)
       \<longrightarrow> grantPermission d g t l b i n1 n2 s = (Inl (mk_error NOT_FOUND ''Group not found''), s))
   \<and> ((\<exists>e'. fst (revokePermission d g t s) = Inl e')
        = (\<forall>p \<in> set (permissions s). \<not> same_grant d g t p))
   \<and> (fst (revokePermission d g t s) = Inl e
       \<longrightarrow> e = mk_error NOT_FOUND ''Permission not found'' \<and> snd (revokePermission d g t s) = s)"
proof -
  note gc = grantPermission_cases [where d=d and g=g and t=t and l=l and b=b and i=i
        and ?n1.0=n1 and ?n2.0=n2 and s=s]
  note rc = revokePermission_cases [where d=d and g=g and t=t and s=s]
  have 1: "fst (grantPermission d g t l b i n1 n2 s) = Inl e
       \<longrightarrow> snd (grantPermission d g t l b i n1 n2 s) = s"
    using gc by auto
  have 2: "t = GUser \<and> g \<notin> u_id ` set (users s)
       \<longrightarrow> grantPermission d g t l b i n1 n2 s = (Inl (mk_error NOT_FOUND ''User not found''), s)"
    by (auto simp: grantPermission_def find_None_iff)
  have 3: "t = GGroup \<and> g \<notin> g_id ` set (groups s)
       \<longrightarrow> grantPermission d g t l b i n1 n2 s = (Inl (mk_error NOT_FOUND ''Group not found''), s)"
    by (auto simp: grantPermission_def find_None_iff)
  have 4: "(\<exists>e'. fst (revokePermission d g t s) = Inl e')
        = (\<forall>p \<in> set (permissions s). \<not> same_grant d g t p)"
    using rc by (auto dest: nth_mem)
  have 5: "fst (revokePermission d g t s) = Inl e
       \<longrightarrow> e = mk_error NOT_FOUND ''Permission not found'' \<and> snd (revokePermission d g t s) = s"
    using rc by auto
  from 1 2 3 4 5 show ?thesis by (intro conjI)
qed


theorem failed_grant_revoke_witness:
  "fst (grantPermission ''doc1'' ''nobody'' GUser View ''u1'' ''p2'' 20 21 demo_store)
     = Inl (mk_error NOT_FOUND ''User not found'')
   \<and> snd (grantPermission ''doc1'' ''nobody'' GUser View ''u1'' ''p2'' 20 21 demo_store)
       = demo_store
   \<and> fst (revokePermission ''doc2'' ''g1'' GGroup demo_store)
       = Inl (mk_error NOT_FOUND ''Permission not found'')
   \<and> snd (revokePermission ''doc2'' ''g1'' GGroup demo_store) = demo_store"
proof -
  have a: "fst (grantPermission ''doc1'' ''nobody'' GUser View ''u1'' ''p2'' 20 21 demo_store)
     = Inl (mk_error NOT_FOUND ''User not found'')"
    by code_simp
  have b: "fst (revokePermission ''doc2'' ''g1'' GGroup demo_store)
       = Inl (mk_error NOT_FOUND ''Permission not found'')"
    by code_simp
  from a failed_grant_revoke [of "''doc1''" "''nobody''" GUser View "''u1''" "''p2''" 20 21
      demo_store "mk_error NOT_FOUND ''User not found''"]
  have c: "snd (grantPermission ''doc1'' ''nobody'' GUser View ''u1'' ''p2'' 20 21 demo_store)
       = demo_store" by blast
  from b failed_grant_revoke [of "''doc2''" "''g1''" GGroup View "''u1''" "''p2''" 20 21
      demo_store "mk_error NOT_FOUND ''Permission not found''"]
  have d: "snd (revokePermission ''doc2'' ''g1'' GGroup demo_store) = demo_store" by blast
  from a c b d show ?thesis by (intro conjI)
qed

lemma run_call_append:
  "(\<exists>us. users (run_call c s) = users s @ us)
   \<and> (\<exists>gs. map g_id (groups (run_call c s)) = map g_id (groups s) @ gs)"
proof (cases c)
  case (CreateUser n e r i)
  then show ?thesis using createUser_frame [of n e r i s] by auto
next
  case (CreateGroup n d i)
  then show ?thesis using createGroup_frame [of n d i s] by auto
next
  case (AddUserToGroup u g)
  then show ?thesis using addUserToGroup_frame [of u g s] by simp
next
  case (RemoveUserFromGroup u g)
  then show ?thesis using removeUserFromGroup_frame [of u g s] by simp
next
  case (GrantPermission d g t l b i n1 n2)
  then show ?thesis using grantPermission_frame [of d g t l b i n1 n2 s] by simp
next
  case (RevokePermission d g t)
  then show ?thesis using revokePermission_frame [of d g t s] by simp
next
  case (InitializePermissions i)
  then show ?thesis using initializePermissions_frame [of i s] by auto
qed

lemma find_id_Some:
  "a \<in> f ` set xs \<Longrightarrow> \<exists>x \<in> set xs. find (\<lambda>y. f y = a) xs = Some x \<and> f x = a"
  by (cases "find (\<lambda>y. f y = a) xs") (auto simp: find_None_iff find_Some_iff)

text \<open>
  C9. In every reachable store the grantee id of every permission names a stored user when
  the type is user and a stored group when the type is group. So every entry of
  \<open>getDocumentAccessList\<close> holds a principal that the lookup found, a stored user or group
  whose id is the grantee id of the stored permission it is paired with. No call removes a
  principal: the users after a call extend the users before it, and so do the group ids.
\<close>

theorem access_list_principals:
  assumes "reachable s"
  shows "(\<forall>p \<in> set (permissions s).
            (granteeType p = GUser \<longrightarrow> (\<exists>u \<in> set (users s). u_id u = granteeId p))
          \<and> (granteeType p = GGroup \<longrightarrow> (\<exists>g \<in> set (groups s). g_id g = granteeId p)))
       \<and> (\<forall>e \<in> set (al_users (getDocumentAccessList s D)).
            \<exists>u \<in> set (users s). fst e = Some u \<and> u_id u = granteeId (snd e)
               \<and> snd e \<in> set (permissions s))
       \<and> (\<forall>e \<in> set (al_groups (getDocumentAccessList s D)).
            \<exists>g \<in> set (groups s). fst e = Some g \<and> g_id g = granteeId (snd e)
               \<and> snd e \<in> set (permissions s))
       \<and> (\<exists>us. users (run_call c s) = users s @ us)
       \<and> (\<exists>gs. map g_id (groups (run_call c s)) = map g_id (groups s) @ gs)"
proof -
  have ge: "\<And>p. p \<in> set (permissions s) \<Longrightarrow> grantee_exists s p"
    using reachable_grantees [OF assms] by (simp add: grantees_exist_def)
  have 1: "\<forall>p \<in> set (permissions s).
            (granteeType p = GUser \<longrightarrow> (\<exists>u \<in> set (users s). u_id u = granteeId p))
          \<and> (granteeType p = GGroup \<longrightarrow> (\<exists>g \<in> set (groups s). g_id g = granteeId p))"
  proof
    fix p assume "p \<in> set (permissions s)"
    from ge [OF this] show "(granteeType p = GUser \<longrightarrow> (\<exists>u \<in> set (users s). u_id u = granteeId p))
          \<and> (granteeType p = GGroup \<longrightarrow> (\<exists>g \<in> set (groups s). g_id g = granteeId p))"
      by (auto simp: grantee_exists_def split: if_splits)
  qed
  have 2: "\<forall>e \<in> set (al_users (getDocumentAccessList s D)).
            \<exists>u \<in> set (users s). fst e = Some u \<and> u_id u = granteeId (snd e)
               \<and> snd e \<in> set (permissions s)"
  proof
    fix e assume "e \<in> set (al_users (getDocumentAccessList s D))"
    then obtain p where p: "p \<in> set (permissions s)" "granteeType p = GUser"
      and e: "e = (find (\<lambda>u. u_id u = granteeId p) (users s), p)"
      by (auto simp: getDocumentAccessList_def getDocumentPermissions_def)
    from ge [OF p(1)] p(2) have "granteeId p \<in> u_id ` set (users s)"
      by (simp add: grantee_exists_def)
    from find_id_Some [OF this] e p(1)
    show "\<exists>u \<in> set (users s). fst e = Some u \<and> u_id u = granteeId (snd e)
               \<and> snd e \<in> set (permissions s)" by auto
  qed
  have 3: "\<forall>e \<in> set (al_groups (getDocumentAccessList s D)).
            \<exists>g \<in> set (groups s). fst e = Some g \<and> g_id g = granteeId (snd e)
               \<and> snd e \<in> set (permissions s)"
  proof
    fix e assume "e \<in> set (al_groups (getDocumentAccessList s D))"
    then obtain p where p: "p \<in> set (permissions s)" "granteeType p = GGroup"
      and e: "e = (find (\<lambda>g. g_id g = granteeId p) (groups s), p)"
      by (auto simp: getDocumentAccessList_def getDocumentPermissions_def)
    from ge [OF p(1)] p(2) have "granteeId p \<in> g_id ` set (groups s)"
      by (simp add: grantee_exists_def)
    from find_id_Some [OF this] e p(1)
    show "\<exists>g \<in> set (groups s). fst e = Some g \<and> g_id g = granteeId (snd e)
               \<and> snd e \<in> set (permissions s)" by auto
  qed
  from 1 2 3 run_call_append [of c s] show ?thesis by (intro conjI) simp_all
qed


theorem access_list_principals_witness:
  "reachable demo_store
   \<and> permissions demo_store = [demo_permission]
   \<and> al_users (getDocumentAccessList demo_store ''doc1'') = []
   \<and> map snd (al_groups (getDocumentAccessList demo_store ''doc1'')) = [demo_permission]
   \<and> map (map_option g_id \<circ> fst) (al_groups (getDocumentAccessList demo_store ''doc1''))
        = [Some ''g1'']"
proof -
  let ?l = "al_groups (getDocumentAccessList demo_store ''doc1'')"
  have a: "al_users (getDocumentAccessList demo_store ''doc1'') = []"
    by code_simp
  have b: "map snd ?l = [demo_permission]"
    by code_simp
  then obtain e where l: "?l = [e]" and e: "snd e = demo_permission"
    by (cases ?l) auto
  from access_list_principals [OF reachable_demo, where D="''doc1''"
      and c="InitializePermissions ''a1''"]
  have "\<forall>e \<in> set ?l. \<exists>g \<in> set (groups demo_store).
          fst e = Some g \<and> g_id g = granteeId (snd e) \<and> snd e \<in> set (permissions demo_store)"
    by blast
  with l obtain g where "fst e = Some g" and "g_id g = granteeId (snd e)"
    by auto
  with e have "map_option g_id (fst e) = Some ''g1''"
    by (simp add: demo_permission_def)
  with l have c: "map (map_option g_id \<circ> fst) ?l = [Some ''g1'']" by simp
  from reachable_demo demo_permissions a b c show ?thesis by (intro conjI)
qed

text \<open>
  C7. In a reachable store, for a user who is not an administrator and whose effective
  permissions for document \<open>D\<close> all belong to the grantee \<open>(G, T)\<close>: after
  \<open>grantPermission\<close> on \<open>(D, G, T)\<close> followed by \<open>revokePermission\<close> on the same triple,
  \<open>checkPermission\<close> is false for that user and \<open>D\<close> at every required level.
\<close>

theorem grant_revoke_no_access:
  assumes "reachable s"
    and "map_option u_role (find (\<lambda>u. u_id u = U) (users s)) \<noteq> Some RoleAdmin"
    and "\<forall>p \<in> set (effective_permissions s D U). granteeId p = G \<and> granteeType p = T"
  shows "\<not> checkPermission
             (snd (revokePermission D G T (snd (grantPermission D G T L b i n1 n2 s)))) D U L'"
proof -
  let ?s2 = "snd (revokePermission D G T (snd (grantPermission D G T L b i n1 n2 s)))"
  have s2: "?s2 = s\<lparr>permissions := filter (\<lambda>p. \<not> same_grant D G T p) (permissions s)\<rparr>"
    using reachable_unique [OF assms(1)] by (rule grant_revoke_permissions)
  have "effective_permissions ?s2 D U
          = filter (\<lambda>p. \<not> same_grant D G T p) (effective_permissions s D U)"
    unfolding s2 by (auto simp: effective_permissions_def intro!: filter_cong)
  also have "\<dots> = []"
    using assms(3) by (auto simp: filter_empty_conv same_grant_def effective_permissions_def)
  finally have e: "effective_permissions ?s2 D U = []" .
  have "users ?s2 = users s" unfolding s2 by simp
  with assms(2) have "map_option u_role (find (\<lambda>u. u_id u = U) (users ?s2)) \<noteq> Some RoleAdmin"
    by simp
  from checkPermission_not_admin [OF this, of D L'] e show ?thesis by simp
qed


theorem grant_revoke_no_access_witness:
  "reachable demo_store
   \<and> map_option u_role (find (\<lambda>u. u_id u = ''u1'') (users demo_store)) \<noteq> Some RoleAdmin
   \<and> effective_permissions demo_store ''doc1'' ''u1'' = [demo_permission]
   \<and> granteeId demo_permission = ''g1'' \<and> granteeType demo_permission = GGroup
   \<and> checkPermission demo_store ''doc1'' ''u1'' View
   \<and> \<not> checkPermission
         (snd (revokePermission ''doc1'' ''g1'' GGroup
            (snd (grantPermission ''doc1'' ''g1'' GGroup Admin ''u1'' ''p2'' 20 21 demo_store))))
         ''doc1'' ''u1'' View"
proof -
  have h: "map_option u_role (find (\<lambda>u. u_id u = ''u1'') (users demo_store)) \<noteq> Some RoleAdmin"
    by (simp add: demo_store_value)
  have e: "effective_permissions demo_store ''doc1'' ''u1'' = [demo_permission]"
    by (simp add: demo_store_value effective_permissions_def demo_permission_def)
  have gi: "granteeId demo_permission = ''g1''" and gt: "granteeType demo_permission = GGroup"
    by (simp_all add: demo_permission_def)
  have q: "\<forall>p \<in> set (effective_permissions demo_store ''doc1'' ''u1'').
         granteeId p = ''g1'' \<and> granteeType p = GGroup"
    unfolding e by (simp add: demo_permission_def)
  have c: "checkPermission demo_store ''doc1'' ''u1'' View"
    by code_simp
  have n: "\<not> checkPermission
         (snd (revokePermission ''doc1'' ''g1'' GGroup
            (snd (grantPermission ''doc1'' ''g1'' GGroup Admin ''u1'' ''p2'' 20 21 demo_store))))
         ''doc1'' ''u1'' View"
    by (rule grant_revoke_no_access [OF reachable_demo h q])
  from reachable_demo h e gi gt c n show ?thesis by (intro conjI)
qed

subsection \<open>Strings\<close>

lemma isWhiteSpace_lower_char: "isWhiteSpace (lower_char c) = isWhiteSpace c"
proof -
  let ?n = "of_char c :: nat"
  have lt: "?n < 256" by simp
  show ?thesis
  proof (cases "(65 \<le> ?n \<and> ?n \<le> 90) \<or> (192 \<le> ?n \<and> ?n \<le> 222 \<and> ?n \<noteq> 215)")
    case True
    then have m: "(?n + 32) mod 256 = ?n + 32" by auto
    have "(of_char (lower_char c) :: nat) = ?n + 32"
      using True m by (simp add: lower_char_def Let_def)
    with True show ?thesis unfolding isWhiteSpace_def Let_def by auto
  next
    case False
    have "lower_char c = c" unfolding lower_char_def Let_def using False by (rule if_not_P)
    then show ?thesis by simp
  qed
qed

lemma trim_blank: "(trim s = []) = (\<forall>c \<in> set s. isWhiteSpace c)"
proof
  assume "trim s = []"
  then have a: "\<forall>c \<in> set (dropWhile isWhiteSpace s). isWhiteSpace c"
    by (simp add: trim_def)
  have "dropWhile isWhiteSpace s = []"
  proof (rule ccontr)
    assume ne: "dropWhile isWhiteSpace s \<noteq> []"
    then have "\<not> isWhiteSpace (hd (dropWhile isWhiteSpace s))" by (rule hd_dropWhile)
    moreover from ne have "hd (dropWhile isWhiteSpace s) \<in> set (dropWhile isWhiteSpace s)"
      by (rule hd_in_set)
    ultimately show False using a by blast
  qed
  then show "\<forall>c \<in> set s. isWhiteSpace c" by simp
next
  assume "\<forall>c \<in> set s. isWhiteSpace c"
  then have d: "dropWhile isWhiteSpace s = []" by simp
  show "trim s = []" unfolding trim_def d by simp
qed

lemma trim_lower_blank: "(trim (toLowerCase s) = []) = (trim s = [])"
  by (simp add: trim_blank toLowerCase_def isWhiteSpace_lower_char)

lemma trim_trim_blank: "(trim (trim s) = []) = (trim s = [])"
proof
  assume a: "trim (trim s) = []"
  show "trim s = []"
  proof (rule ccontr)
    assume ne: "trim s \<noteq> []"
    let ?ys = "dropWhile isWhiteSpace (rev (dropWhile isWhiteSpace s))"
    from ne have ys: "?ys \<noteq> []" by (simp add: trim_def)
    then have "\<not> isWhiteSpace (hd ?ys)" by (rule hd_dropWhile)
    moreover from ys have "hd ?ys \<in> set ?ys" by (rule hd_in_set)
    then have "hd ?ys \<in> set (trim s)" by (simp add: trim_def)
    ultimately show False using a by (auto simp: trim_blank)
  qed
next
  assume e: "trim s = []"
  show "trim (trim s) = []" unfolding e by (simp add: trim_def)
qed

subsection \<open>Creating users and groups\<close>

lemma createUser_cases:
  fixes n e r i s
  defines "res \<equiv> createUser n e r i s"
  defines "new \<equiv> \<lparr>u_id = i, u_name = trim n, u_email = trim (toLowerCase e),
                   u_role = (case r of None \<Rightarrow> RoleUser | Some x \<Rightarrow> x)\<rparr>"
  shows "((trim n = [] \<or> trim e = [])
            \<and> res = (Inl (mk_error VALIDATION_ERROR ''Name and email are required''), s))
       \<or> (trim n \<noteq> [] \<and> trim e \<noteq> [] \<and> email_in_use s e
            \<and> res = (Inl (mk_error INVALID_OPERATION ''User with this email already exists''), s))
       \<or> (trim n \<noteq> [] \<and> trim e \<noteq> [] \<and> \<not> email_in_use s e
            \<and> res = (Inr new, s\<lparr>users := users s @ [new]\<rparr>))"
proof (cases "find (\<lambda>u. toLowerCase (u_email u) = toLowerCase e) (users s)")
  case None
  then have "\<not> email_in_use s e" by (auto simp: email_in_use_def find_None_iff)
  with None show ?thesis by (simp add: res_def new_def createUser_def Let_def)
next
  case (Some u)
  then have "email_in_use s e" by (auto simp: email_in_use_def find_Some_iff)
  with Some show ?thesis by (simp add: res_def new_def createUser_def Let_def)
qed

lemma createGroup_cases:
  fixes n d i s
  defines "res \<equiv> createGroup n d i s"
  defines "new \<equiv> \<lparr>g_id = i, g_name = trim n, g_description = map_option trim d,
                   g_members = []\<rparr>"
  shows "(trim n = []
            \<and> res = (Inl (mk_error VALIDATION_ERROR ''Group name is required''), s))
       \<or> (trim n \<noteq> [] \<and> group_name_in_use s n
            \<and> res = (Inl (mk_error INVALID_OPERATION ''Group with this name already exists''), s))
       \<or> (trim n \<noteq> [] \<and> \<not> group_name_in_use s n
            \<and> res = (Inr new, s\<lparr>groups := groups s @ [new]\<rparr>))"
proof (cases "find (\<lambda>g. toLowerCase (g_name g) = toLowerCase n) (groups s)")
  case None
  then have "\<not> group_name_in_use s n" by (auto simp: group_name_in_use_def find_None_iff)
  with None show ?thesis by (simp add: res_def new_def createGroup_def Let_def)
next
  case (Some u)
  then have "group_name_in_use s n" by (auto simp: group_name_in_use_def find_Some_iff)
  with Some show ?thesis by (simp add: res_def new_def createGroup_def Let_def)
qed

lemma map_g_name_update:
  "map g_name (gs[k := (gs ! k)\<lparr>g_members := ms\<rparr>]) = map g_name gs"
proof (cases "k < length gs")
  case True
  then have "(map g_name gs)[k := g_name (gs ! k)] = map g_name gs"
    by (simp add: list_update_same_conv)
  then show ?thesis by (simp add: map_update)
next
  case False
  then show ?thesis by (simp add: list_update_beyond not_less)
qed

lemma addUserToGroup_names:
  "map g_name (groups (snd (addUserToGroup u g s))) = map g_name (groups s)"
  by (simp add: addUserToGroup_def Let_def map_g_name_update split: option.split)

lemma removeUserFromGroup_names:
  "map g_name (groups (snd (removeUserFromGroup u g s))) = map g_name (groups s)"
  by (simp add: removeUserFromGroup_def Let_def map_g_name_update)

lemma named_principals_eq:
  "users s' = users s \<Longrightarrow> map g_name (groups s') = map g_name (groups s) \<Longrightarrow>
     named_principals s' = named_principals s"
proof -
  assume u: "users s' = users s" and g: "map g_name (groups s') = map g_name (groups s)"
  have im: "g_name ` set (groups s') = g_name ` set (groups s)"
    using arg_cong [OF g, of set] by (simp only: set_map)
  have "(\<forall>g \<in> set (groups s'). trim (g_name g) \<noteq> []) = (\<forall>x \<in> g_name ` set (groups s'). trim x \<noteq> [])"
    by simp
  also have "\<dots> = (\<forall>x \<in> g_name ` set (groups s). trim x \<noteq> [])"
    by (simp only: im)
  also have "\<dots> = (\<forall>g \<in> set (groups s). trim (g_name g) \<noteq> [])"
    by simp
  finally show ?thesis using u by (simp add: named_principals_def)
qed

lemma createUser_named:
  assumes "named_principals s"
  shows "named_principals (snd (createUser n e r i s))"
  using createUser_cases [where n=n and e=e and r=r and i=i and s=s] assms
  by (auto simp: named_principals_def trim_trim_blank trim_lower_blank)

lemma createGroup_named:
  assumes "named_principals s"
  shows "named_principals (snd (createGroup n d i s))"
  using createGroup_cases [where n=n and d=d and i=i and s=s] assms
  by (auto simp: named_principals_def trim_trim_blank)

lemma run_call_named:
  assumes "named_principals s"
  shows "named_principals (run_call c s)"
proof (cases c)
  case (CreateUser n e r i)
  then show ?thesis using assms by (simp add: createUser_named)
next
  case (CreateGroup n d i)
  then show ?thesis using assms by (simp add: createGroup_named)
next
  case (AddUserToGroup u g)
  then show ?thesis
    using assms addUserToGroup_frame [of u g s] addUserToGroup_names [of u g s]
      named_principals_eq [of "snd (addUserToGroup u g s)" s]
    by simp
next
  case (RemoveUserFromGroup u g)
  then show ?thesis
    using assms removeUserFromGroup_frame [of u g s] removeUserFromGroup_names [of u g s]
      named_principals_eq [of "snd (removeUserFromGroup u g s)" s]
    by simp
next
  case (GrantPermission d g t l b i n1 n2)
  then show ?thesis
    using assms grantPermission_frame [of d g t l b i n1 n2 s] by (simp add: named_principals_def)
next
  case (RevokePermission d g t)
  then show ?thesis
    using assms revokePermission_frame [of d g t s] by (simp add: named_principals_def)
next
  case (InitializePermissions i)
  then show ?thesis using assms by (simp add: initializePermissions_def createUser_named)
qed

lemma reachable_named: "reachable s \<Longrightarrow> named_principals s"
proof (induction rule: reachable.induct)
  case reachable_empty
  then show ?case by (simp add: named_principals_def empty_store_def)
next
  case (reachable_call s c)
  then show ?case by (simp add: run_call_named)
qed

text \<open>
  C5, amended. The conflict error of the specification is the error of type
  \<open>INVALID_OPERATION\<close> with the message of the duplicate. In a reachable store,
  \<open>createUser\<close> with a name that is not blank and an email that a stored user already has,
  compared in lower case, returns that error and leaves the store as it is; \<open>createGroup\<close>
  with a name that a stored group already has, compared in lower case, does the same. As
  stated for every name the claim fails, since \<open>createUser\<close> checks first that the name is
  not blank and returns the validation error for a blank one.
\<close>

theorem duplicate_conflict:
  assumes "reachable s"
  shows "(trim name \<noteq> [] \<and> email_in_use s email \<longrightarrow>
            createUser name email role uuid s =
              (Inl (mk_error INVALID_OPERATION ''User with this email already exists''), s))
       \<and> (group_name_in_use s gname \<longrightarrow>
            createGroup gname description guuid s =
              (Inl (mk_error INVALID_OPERATION ''Group with this name already exists''), s))"
proof -
  have np: "named_principals s" using assms by (rule reachable_named)
  have e: "trim email \<noteq> []" if "email_in_use s email"
  proof -
    from that obtain u where u: "u \<in> set (users s)" "toLowerCase (u_email u) = toLowerCase email"
      by (auto simp: email_in_use_def)
    from np u(1) have "trim (u_email u) \<noteq> []" by (simp add: named_principals_def)
    then have "trim (toLowerCase (u_email u)) \<noteq> []" by (simp add: trim_lower_blank)
    with u(2) show ?thesis by (simp add: trim_lower_blank)
  qed
  have g: "trim gname \<noteq> []" if "group_name_in_use s gname"
  proof -
    from that obtain x where x: "x \<in> set (groups s)" "toLowerCase (g_name x) = toLowerCase gname"
      by (auto simp: group_name_in_use_def)
    from np x(1) have "trim (g_name x) \<noteq> []" by (simp add: named_principals_def)
    then have "trim (toLowerCase (g_name x)) \<noteq> []" by (simp add: trim_lower_blank)
    with x(2) show ?thesis by (simp add: trim_lower_blank)
  qed
  from createUser_cases [where n=name and e=email and r=role and i=uuid and s=s] e
  have 1: "trim name \<noteq> [] \<and> email_in_use s email \<longrightarrow>
            createUser name email role uuid s =
              (Inl (mk_error INVALID_OPERATION ''User with this email already exists''), s)"
    by blast
  from createGroup_cases [where n=gname and d=description and i=guuid and s=s] g
  have 2: "group_name_in_use s gname \<longrightarrow>
            createGroup gname description guuid s =
              (Inl (mk_error INVALID_OPERATION ''Group with this name already exists''), s)"
    by blast
  from 1 2 show ?thesis by (rule conjI)
qed


theorem duplicate_conflict_witness:
  "reachable demo_store
   \<and> trim ''Bob'' \<noteq> [] \<and> email_in_use demo_store ''ALICE@X.COM''
   \<and> createUser ''Bob'' ''ALICE@X.COM'' None ''u2'' demo_store =
        (Inl (mk_error INVALID_OPERATION ''User with this email already exists''), demo_store)
   \<and> group_name_in_use demo_store ''ENG''
   \<and> createGroup ''ENG'' None ''g2'' demo_store =
        (Inl (mk_error INVALID_OPERATION ''Group with this name already exists''), demo_store)"
proof -
  have a: "trim ''Bob'' \<noteq> []" by code_simp
  have b: "email_in_use demo_store ''ALICE@X.COM''" by code_simp
  have c: "group_name_in_use demo_store ''ENG''" by code_simp
  note th = duplicate_conflict [OF reachable_demo, where name="''Bob''"
      and email="''ALICE@X.COM''" and role=None and uuid="''u2''" and gname="''ENG''"
      and description=None and guuid="''g2''"]
  from th a b have d: "createUser ''Bob'' ''ALICE@X.COM'' None ''u2'' demo_store =
        (Inl (mk_error INVALID_OPERATION ''User with this email already exists''), demo_store)"
    by blast
  from th c have e: "createGroup ''ENG'' None ''g2'' demo_store =
        (Inl (mk_error INVALID_OPERATION ''Group with this name already exists''), demo_store)"
    by blast
  from reachable_demo a b d c e show ?thesis by (intro conjI)
qed

theorem duplicate_conflict_counterexample:
  "email_in_use demo_store ''ALICE@X.COM''
   \<and> fst (createUser ''  '' ''ALICE@X.COM'' None ''u2'' demo_store)
       = Inl (mk_error VALIDATION_ERROR ''Name and email are required'')
   \<and> fst (createUser ''  '' ''ALICE@X.COM'' None ''u2'' demo_store)
       \<noteq> Inl (mk_error INVALID_OPERATION ''User with this email already exists'')"
  by code_simp

text \<open>
  C6. \<open>createUser\<close> stores the email in lower case and trimmed, but compares the stored
  emails with the lower-case email that is not trimmed. With \<open>alice@x.com\<close> stored, an
  email that differs from it by a leading space is accepted, and the store then holds the
  same email twice.
\<close>

theorem createUser_untrimmed_duplicate:
  "map u_email (users demo_store) = [''alice@x.com'']
   \<and> trim (toLowerCase '' alice@x.com'') = ''alice@x.com''
   \<and> fst (createUser ''Bob'' '' alice@x.com'' None ''u2'' demo_store) =
        Inr \<lparr>u_id = ''u2'', u_name = ''Bob'', u_email = ''alice@x.com'', u_role = RoleUser\<rparr>
   \<and> map u_email (users (snd (createUser ''Bob'' '' alice@x.com'' None ''u2'' demo_store)))
        = [''alice@x.com'', ''alice@x.com'']"
  by code_simp

subsection \<open>The lists of users and groups\<close>

lemma map_members_update:
  assumes "\<And>g ms. f (g\<lparr>g_members := ms\<rparr>) = f g"
  shows "map f (gs[k := (gs ! k)\<lparr>g_members := ms\<rparr>]) = map f gs"
proof (cases "k < length gs")
  case True
  then have "(map f gs)[k := f (gs ! k)] = map f gs"
    by (simp add: list_update_same_conv)
  then show ?thesis by (simp add: map_update assms)
next
  case False
  then show ?thesis by (simp add: list_update_beyond not_less)
qed

lemma without_members_update: "without_members (g\<lparr>g_members := ms\<rparr>) = without_members g"
  by (simp add: without_members_def)

lemma run_call_new_users: "users (run_call c s) = users s @ new_users c s"
proof (cases c)
  case (CreateUser n e r i)
  then show ?thesis
    using createUser_cases [where n=n and e=e and r=r and i=i and s=s] by auto
next
  case (CreateGroup n d i)
  then show ?thesis using createGroup_frame [of n d i s] by simp
next
  case (AddUserToGroup u g)
  then show ?thesis using addUserToGroup_frame [of u g s] by simp
next
  case (RemoveUserFromGroup u g)
  then show ?thesis using removeUserFromGroup_frame [of u g s] by simp
next
  case (GrantPermission d g t l b i n1 n2)
  then show ?thesis using grantPermission_frame [of d g t l b i n1 n2 s] by simp
next
  case (RevokePermission d g t)
  then show ?thesis using revokePermission_frame [of d g t s] by simp
next
  case (InitializePermissions i)
  then show ?thesis
    using createUser_cases [where n="''Admin''" and e="''admin@example.com''"
        and r="Some RoleAdmin" and i=i and s=s]
    by (auto simp: initializePermissions_def)
qed

lemma run_call_new_groups:
  "map without_members (groups (run_call c s))
     = map without_members (groups s) @ new_groups c s"
proof (cases c)
  case (CreateUser n e r i)
  then show ?thesis using createUser_frame [of n e r i s] by simp
next
  case (CreateGroup n d i)
  then show ?thesis
    using createGroup_cases [where n=n and d=d and i=i and s=s]
    by (auto simp: without_members_def)
next
  case (AddUserToGroup u g)
  then show ?thesis
    by (simp add: addUserToGroup_def Let_def map_members_update without_members_update
          split: option.split)
next
  case (RemoveUserFromGroup u g)
  then show ?thesis
    by (simp add: removeUserFromGroup_def Let_def map_members_update without_members_update)
next
  case (GrantPermission d g t l b i n1 n2)
  then show ?thesis using grantPermission_frame [of d g t l b i n1 n2 s] by simp
next
  case (RevokePermission d g t)
  then show ?thesis using revokePermission_frame [of d g t s] by simp
next
  case (InitializePermissions i)
  then show ?thesis using initializePermissions_frame [of i s] by simp
qed

lemma run_created_users: "users (run cs s) = users s @ created_users cs s"
  by (induction cs arbitrary: s) (simp_all add: run_call_new_users)

lemma run_created_groups:
  "map without_members (groups (run cs s)) = map without_members (groups s) @ created_groups cs s"
  by (induction cs arbitrary: s) (simp_all add: run_call_new_groups)

text \<open>
  C10. \<open>getAllUsers\<close> and \<open>getAllGroups\<close> return the stored users and groups in the order
  of their creation, but what they return is the array of the store itself and not a copy.
  A record pushed onto the list that \<open>getAllUsers\<close> returned for the empty store is in the
  store afterwards: \<open>getAllUsers\<close> returns it, and \<open>checkPermission\<close>, which refused the id
  before, grants it every level, the record being an administrator. A record pushed onto the
  list that \<open>getAllGroups\<close> returned is in the store in the same way.
\<close>

theorem getAll_exposes_store_arrays:
  "getAllUsers (store_of initial_module) = []
   \<and> getAllUsers (store_of (push_user (getAllUsers_ref initial_module) intruder initial_module))
        = [intruder]
   \<and> \<not> checkPermission (store_of initial_module) ''doc1'' ''x'' Admin
   \<and> checkPermission
        (store_of (push_user (getAllUsers_ref initial_module) intruder initial_module))
        ''doc1'' ''x'' Admin
   \<and> getAllGroups (store_of initial_module) = []
   \<and> getAllGroups
        (store_of (push_group (getAllGroups_ref initial_module) intruder_group initial_module))
        = [intruder_group]"
  by (simp add: getAllUsers_def getAllGroups_def store_of_def push_user_def push_group_def
        write_users_def write_groups_def getAllUsers_ref_def getAllGroups_ref_def
        initial_module_def intruder_def checkPermission_def getUserPermissions_def)

end
